theory Spec2Isabelle
  imports Main
begin

section \<open>AsyncTimer (src/AsyncTimer.cc) over a model of the host event loop\<close>

text \<open>
  The timer of atscppapi: one \<open>AsyncTimerState\<close> owned by one \<open>AsyncTimer\<close>,
  a native continuation created by the constructor, and at most two native
  action handles. The C++ member names end in an underscore
  (\<open>cont_\<close>, \<open>type_\<close>, ...); such names are not identifiers of Isabelle, so
  the fields below carry the source's names without it.
\<close>

subsection \<open>Handles, the timer type and the call log\<close>

text \<open>
  \<open>TSCont\<close> and \<open>TSAction\<close> are opaque pointers of ts/ts.h. A continuation
  is a number; an action handle is \<open>Some\<close> number, and \<open>None\<close> is the
  \<open>NULL\<close> the code stores and tests for. A \<open>shared_ptr\<close> to a dispatch
  controller is \<open>Some\<close> controller, or \<open>None\<close> when it is empty.
\<close>

type_synonym TSCont = nat
type_synonym TSAction = "nat option"
type_synonym controller = nat

text \<open>\<open>AsyncTimer::Type\<close>, with the two enumerators AsyncTimer.cc names.\<close>

datatype Type = TYPE_ONE_OFF | TYPE_PERIODIC

text \<open>
  Everything the timer does that is visible outside it, in the order it
  happens: the calls into the host, the calls of \<open>dispatch()\<close> with the value
  returned, and \<open>delete state_\<close>.
\<close>

datatype call =
    ContCreate TSCont
  | ContDataSet TSCont
  | ContSchedule TSCont int nat
  | ContScheduleEvery TSCont int nat
  | ActionCancel nat
  | ContDestroy TSCont
  | Dispatch controller bool
  | StateDelete

subsection \<open>The host event loop\<close>

text \<open>
  Modelled from the spec: the host event loop of ts/ts.h, which is not part
  of the repository (section 6 of the spec: \<open>scheduleOnce\<close>, \<open>scheduleEvery\<close>,
  \<open>cancel\<close>, \<open>createContinuation\<close>, \<open>destroyContinuation\<close>). The host
  hands out fresh, non-NULL handles, keeps the scheduled callbacks that are
  still pending, and every call is written to the log.
\<close>

record scheduled =
  action :: nat
  target :: TSCont
  delay_ms :: int
  every :: bool

record host =
  next_id :: nat
  pending :: "scheduled list"
  calls :: "call list"

definition host0 :: host where
  "host0 = \<lparr>next_id = 0, pending = [], calls = []\<rparr>"

definition TSContCreate :: "'a host_scheme \<Rightarrow> TSCont \<times> 'a host_scheme" where
  "TSContCreate h =
     (let c = Suc (next_id h)
      in (c, h\<lparr>next_id := c, calls := calls h @ [ContCreate c]\<rparr>))"

definition TSContDataSet :: "'a host_scheme \<Rightarrow> TSCont \<Rightarrow> 'a host_scheme" where
  "TSContDataSet h c = h\<lparr>calls := calls h @ [ContDataSet c]\<rparr>"

definition TSContSchedule :: "'a host_scheme \<Rightarrow> TSCont \<Rightarrow> int \<Rightarrow> TSAction \<times> 'a host_scheme" where
  "TSContSchedule h c ms =
     (let a = Suc (next_id h)
      in (Some a,
          h\<lparr>next_id := a,
            pending := pending h @ [\<lparr>action = a, target = c, delay_ms = ms, every = False\<rparr>],
            calls := calls h @ [ContSchedule c ms a]\<rparr>))"

definition TSContScheduleEvery :: "'a host_scheme \<Rightarrow> TSCont \<Rightarrow> int \<Rightarrow> TSAction \<times> 'a host_scheme" where
  "TSContScheduleEvery h c ms =
     (let a = Suc (next_id h)
      in (Some a,
          h\<lparr>next_id := a,
            pending := pending h @ [\<lparr>action = a, target = c, delay_ms = ms, every = True\<rparr>],
            calls := calls h @ [ContScheduleEvery c ms a]\<rparr>))"

definition TSActionCancel :: "'a host_scheme \<Rightarrow> nat \<Rightarrow> 'a host_scheme" where
  "TSActionCancel h a =
     h\<lparr>pending := filter (\<lambda>s. action s \<noteq> a) (pending h),
       calls := calls h @ [ActionCancel a]\<rparr>"

definition TSContDestroy :: "'a host_scheme \<Rightarrow> TSCont \<Rightarrow> 'a host_scheme" where
  "TSContDestroy h c = h\<lparr>calls := calls h @ [ContDestroy c]\<rparr>"

subsection \<open>The timer's state\<close>

text \<open>
  \<open>struct AsyncTimerState\<close>. The back pointer \<open>timer_\<close> is left out: the
  world below holds one timer, and \<open>delete state->timer_\<close> is the destructor
  run on that world. The two periods are C \<open>int\<close>s; the code compares them
  with zero and hands them to the host, and computes nothing with them, so
  they are integers here.
\<close>

record AsyncTimerState =
  cont :: TSCont
  type :: Type
  period_in_ms :: int
  initial_period_in_ms :: int
  initial_timer_action :: TSAction
  periodic_timer_action :: TSAction
  dispatch_controller :: "controller option"

text \<open>
  The world: the host, the timer's state, and whether \<open>delete state_\<close> has
  run. The destructor does not write to the fields, so they keep their last
  values in a deleted state.
\<close>

record world = host +
  state :: AsyncTimerState
  state_deleted :: bool

text \<open>The constructor of \<open>AsyncTimerState\<close> (lines 33-35); \<open>cont_\<close> is assigned by the caller.\<close>

definition AsyncTimerState_new :: "Type \<Rightarrow> int \<Rightarrow> int \<Rightarrow> TSCont \<Rightarrow> AsyncTimerState" where
  "AsyncTimerState_new ty p ip c =
     \<lparr>cont = c, type = ty, period_in_ms = p, initial_period_in_ms = ip,
      initial_timer_action = None, periodic_timer_action = None,
      dispatch_controller = None\<rparr>"

text \<open>\<open>AsyncTimer::AsyncTimer\<close> (lines 60-65).\<close>

definition AsyncTimer :: "Type \<Rightarrow> int \<Rightarrow> int \<Rightarrow> host \<Rightarrow> world" where
  "AsyncTimer ty p ip h =
     (let (c, h1) = TSContCreate h;
          h2 = TSContDataSet h1 c
      in \<lparr>next_id = next_id h2, pending = pending h2, calls = calls h2,
          state = AsyncTimerState_new ty p ip c, state_deleted = False\<rparr>)"

subsection \<open>\<open>AsyncTimer::run\<close> (lines 67-88)\<close>

text \<open>The two local variables of \<open>run\<close> after lines 68-76.\<close>

definition one_off_timeout_in_ms :: "AsyncTimerState \<Rightarrow> int" where
  "one_off_timeout_in_ms st =
     (if type st = TYPE_ONE_OFF then period_in_ms st else initial_period_in_ms st)"

definition regular_timeout_in_ms :: "AsyncTimerState \<Rightarrow> int" where
  "regular_timeout_in_ms st =
     (if type st = TYPE_ONE_OFF then 0 else period_in_ms st)"

text \<open>Lines 77-86: the scheduling call and the assignment of the handle it returns.\<close>

definition run_arm :: "world \<Rightarrow> world" where
  "run_arm w =
     (if one_off_timeout_in_ms (state w) \<noteq> 0 then
        (let (a, w1) = TSContSchedule w (cont (state w)) (one_off_timeout_in_ms (state w))
         in w1\<lparr>state := (state w1)\<lparr>initial_timer_action := a\<rparr>\<rparr>)
      else if regular_timeout_in_ms (state w) \<noteq> 0 then
        (let (a, w1) = TSContScheduleEvery w (cont (state w)) (regular_timeout_in_ms (state w))
         in w1\<lparr>state := (state w1)\<lparr>periodic_timer_action := a\<rparr>\<rparr>)
      else w)"

text \<open>The argument is a \<open>shared_ptr\<close>, which the caller may pass empty.\<close>

definition run :: "world \<Rightarrow> controller option \<Rightarrow> world" where
  "run w dc = (let w1 = run_arm w in w1\<lparr>state := (state w1)\<lparr>dispatch_controller := dc\<rparr>\<rparr>)"

subsection \<open>\<open>AsyncTimer::~AsyncTimer\<close> (lines 90-102)\<close>

definition cancel_initial :: "world \<Rightarrow> world" where
  "cancel_initial w =
     (case initial_timer_action (state w) of Some a \<Rightarrow> TSActionCancel w a | None \<Rightarrow> w)"

definition cancel_periodic :: "world \<Rightarrow> world" where
  "cancel_periodic w =
     (case periodic_timer_action (state w) of Some a \<Rightarrow> TSActionCancel w a | None \<Rightarrow> w)"

definition delete_state :: "world \<Rightarrow> world" where
  "delete_state w = w\<lparr>calls := calls w @ [StateDelete], state_deleted := True\<rparr>"

definition AsyncTimer_destructor :: "world \<Rightarrow> world" where
  "AsyncTimer_destructor w =
     (let w1 = cancel_initial w;
          w2 = cancel_periodic w1;
          w3 = TSContDestroy w2 (cont (state w2))
      in delete_state w3)"

text \<open>The states the destructor passes through, after each of its four statements.\<close>

definition AsyncTimer_destructor_points :: "world \<Rightarrow> world list" where
  "AsyncTimer_destructor_points w =
     (let w1 = cancel_initial w;
          w2 = cancel_periodic w1;
          w3 = TSContDestroy w2 (cont (state w2))
      in [w1, w2, w3, delete_state w3])"

subsection \<open>\<open>handleTimerEvent\<close> (lines 40-56)\<close>

datatype error =
    NullController  \<comment> \<open>\<open>dispatch()\<close> called through an empty \<open>shared_ptr\<close>\<close>
  | UseAfterFree    \<comment> \<open>the callback runs on a state that was deleted\<close>
  | NotPending      \<comment> \<open>the host has no such pending action to fire\<close>
  | DoubleDelete    \<comment> \<open>the timer is deleted a second time\<close>

text \<open>Line 44.\<close>

definition clear_initial :: "world \<Rightarrow> world" where
  "clear_initial w = w\<lparr>state := (state w)\<lparr>initial_timer_action := None\<rparr>\<rparr>"

text \<open>Lines 47-48.\<close>

definition arm_periodic :: "world \<Rightarrow> world" where
  "arm_periodic w =
     (let (a, w1) = TSContScheduleEvery w (cont (state w)) (period_in_ms (state w))
      in w1\<lparr>state := (state w1)\<lparr>periodic_timer_action := a\<rparr>\<rparr>)"

text \<open>Lines 42-50: the part of the callback before \<open>dispatch()\<close>.\<close>

definition timer_transition :: "world \<Rightarrow> world" where
  "timer_transition w =
     (if initial_timer_action (state w) \<noteq> None then
        (let w1 = clear_initial w
         in if type (state w1) = TYPE_PERIODIC then arm_periodic w1 else w1)
      else w)"

text \<open>
  The callback. \<open>d\<close> is what \<open>dispatch()\<close> returns in this invocation: the
  controller is an object of the caller, outside the timer.
\<close>

definition handleTimerEvent :: "world \<Rightarrow> bool \<Rightarrow> error + world" where
  "handleTimerEvent w d =
     (let w1 = timer_transition w
      in case dispatch_controller (state w1) of
           None \<Rightarrow> Inl NullController
         | Some c \<Rightarrow>
             (let w2 = w1\<lparr>calls := calls w1 @ [Dispatch c d]\<rparr>
              in if \<not> d then Inr (AsyncTimer_destructor w2) else Inr w2))"

text \<open>
  The states one invocation of the callback passes through after its entry
  state, statement by statement, up to its return (or up to the crash).
\<close>

definition handleTimerEvent_points :: "world \<Rightarrow> bool \<Rightarrow> world list" where
  "handleTimerEvent_points w d =
     (if initial_timer_action (state w) \<noteq> None then
        clear_initial w #
        (if type (state w) = TYPE_PERIODIC then [arm_periodic (clear_initial w)] else [])
      else []) @
     (let w1 = timer_transition w
      in case dispatch_controller (state w1) of
           None \<Rightarrow> []
         | Some c \<Rightarrow>
             (let w2 = w1\<lparr>calls := calls w1 @ [Dispatch c d]\<rparr>
              in w2 # (if \<not> d then AsyncTimer_destructor_points w2 else [])))"

subsection \<open>The life of a timer\<close>

text \<open>
  The host fires a pending action: a one-off action is consumed by its fire,
  a periodic one stays pending. The callback then runs on the timer's state.
\<close>

definition deliver :: "world \<Rightarrow> nat \<Rightarrow> error + world" where
  "deliver w a =
     (case find (\<lambda>s. action s = a) (pending w) of
        None \<Rightarrow> Inl NotPending
      | Some s \<Rightarrow>
          if state_deleted w then Inl UseAfterFree
          else Inr (if every s then w
                    else w\<lparr>pending := filter (\<lambda>s. action s \<noteq> a) (pending w)\<rparr>))"

text \<open>
  What can happen to a timer that has been run: the host fires one of its
  actions (and \<open>dispatch()\<close> answers \<open>d\<close>), or its owner deletes it.
\<close>

datatype event = Fire nat bool | Delete

fun step :: "world \<Rightarrow> event \<Rightarrow> error + world" where
  "step w (Fire a d) =
     (case deliver w a of Inl e \<Rightarrow> Inl e | Inr w1 \<Rightarrow> handleTimerEvent w1 d)"
| "step w Delete =
     (if state_deleted w then Inl DoubleDelete else Inr (AsyncTimer_destructor w))"

fun step_points :: "world \<Rightarrow> event \<Rightarrow> world list" where
  "step_points w (Fire a d) =
     (case deliver w a of Inl e \<Rightarrow> [] | Inr w1 \<Rightarrow> w1 # handleTimerEvent_points w1 d)"
| "step_points w Delete =
     (if state_deleted w then [] else AsyncTimer_destructor_points w)"

fun steps :: "world \<Rightarrow> event list \<Rightarrow> error + world" where
  "steps w [] = Inr w"
| "steps w (e # es) = (case step w e of Inl x \<Rightarrow> Inl x | Inr w1 \<Rightarrow> steps w1 es)"

fun points :: "world \<Rightarrow> event list \<Rightarrow> world list" where
  "points w [] = [w]"
| "points w (e # es) =
     w # step_points w e @ (case step w e of Inl x \<Rightarrow> [] | Inr w1 \<Rightarrow> points w1 es)"

text \<open>
  A timer is constructed, run once (the spec leaves a second \<open>run\<close>
  undefined), and then lives through a list of events.
\<close>

definition lifecycle :: "Type \<Rightarrow> int \<Rightarrow> int \<Rightarrow> controller option \<Rightarrow> event list \<Rightarrow> error + world" where
  "lifecycle ty p ip dc evs = steps (run (AsyncTimer ty p ip host0) dc) evs"

text \<open>Every state of that life: constructed, armed, run, and each point of each event.\<close>

definition lifecycle_points :: "Type \<Rightarrow> int \<Rightarrow> int \<Rightarrow> controller option \<Rightarrow> event list \<Rightarrow> world list" where
  "lifecycle_points ty p ip dc evs =
     AsyncTimer ty p ip host0 # run_arm (AsyncTimer ty p ip host0) #
     points (run (AsyncTimer ty p ip host0) dc) evs"

subsection \<open>What the fields say about the host\<close>

text \<open>How many of the two handle fields are not \<open>NULL\<close>.\<close>

definition armed_count :: "AsyncTimerState \<Rightarrow> nat" where
  "armed_count st =
     (if initial_timer_action st = None then 0 else 1) +
     (if periodic_timer_action st = None then 0 else 1)"

text \<open>
  The scheduled callbacks that the two handle fields stand for: the one-off
  one at the delay \<open>run\<close> chose, the periodic one at \<open>period_in_ms_\<close>.
\<close>

definition armed :: "AsyncTimerState \<Rightarrow> scheduled list" where
  "armed st =
     (case initial_timer_action st of
        None \<Rightarrow> []
      | Some a \<Rightarrow> [\<lparr>action = a, target = cont st, delay_ms = one_off_timeout_in_ms st, every = False\<rparr>]) @
     (case periodic_timer_action st of
        None \<Rightarrow> []
      | Some b \<Rightarrow> [\<lparr>action = b, target = cont st, delay_ms = period_in_ms st, every = True\<rparr>])"

text \<open>The cancellations of lines 91-98, in their order.\<close>

definition cancels :: "AsyncTimerState \<Rightarrow> call list" where
  "cancels st =
     (case initial_timer_action st of None \<Rightarrow> [] | Some a \<Rightarrow> [ActionCancel a]) @
     (case periodic_timer_action st of None \<Rightarrow> [] | Some b \<Rightarrow> [ActionCancel b])"

definition is_schedule_every :: "call \<Rightarrow> bool" where
  "is_schedule_every x = (case x of ContScheduleEvery c ms a \<Rightarrow> True | _ \<Rightarrow> False)"

text \<open>
  What holds of a timer between two events: at most one handle field is set;
  the host's pending callbacks are exactly those the fields stand for, and
  none once the state is deleted; handles were handed out by the host; a
  one-off timer has no periodic handle; nothing is cancelled or deleted
  before the destructor runs; and \<open>TSContScheduleEvery\<close> was called once if
  the periodic field is set, and never otherwise.
\<close>

definition timer_inv :: "world \<Rightarrow> bool" where
  "timer_inv w \<longleftrightarrow>
     (initial_timer_action (state w) = None \<or> periodic_timer_action (state w) = None) \<and>
     pending w = (if state_deleted w then [] else armed (state w)) \<and>
     (\<forall>a. initial_timer_action (state w) = Some a \<longrightarrow> a \<le> next_id w) \<and>
     (\<forall>b. periodic_timer_action (state w) = Some b \<longrightarrow> b \<le> next_id w) \<and>
     (type (state w) = TYPE_ONE_OFF \<longrightarrow> periodic_timer_action (state w) = None) \<and>
     (\<not> state_deleted w \<longrightarrow> (\<forall>x. ActionCancel x \<notin> set (calls w)) \<and> StateDelete \<notin> set (calls w)) \<and>
     length (filter is_schedule_every (calls w)) =
       (if periodic_timer_action (state w) = None then 0 else 1)"

text \<open>
  A handle the timer is done with: it is in neither field, it was never
  cancelled, and the host handed it out in the past.
\<close>

definition retired :: "nat \<Rightarrow> world \<Rightarrow> bool" where
  "retired a w \<longleftrightarrow>
     ActionCancel a \<notin> set (calls w) \<and>
     initial_timer_action (state w) \<noteq> Some a \<and>
     periodic_timer_action (state w) \<noteq> Some a \<and>
     a \<le> next_id w"

section \<open>AsyncHttpFetch (declared in include/atscppapi/AsyncHttpFetch.h)\<close>

text \<open>\<open>AsyncHttpFetch::Result\<close>, as the header declares it (the values 10000, 10001, 10002).\<close>

datatype Result = RESULT_SUCCESS | RESULT_TIMEOUT | RESULT_FAILURE

text \<open>
  Modelled from the spec: the state of a fetch and its completion.
  AsyncHttpFetch.cc, which defines \<open>AsyncHttpFetchState\<close>, the completion
  callback and \<open>getResponseBody\<close>, is missing; only the declaration and its
  comment are there. The spec's data model: a result code (\<open>None\<close> while
  pending) and, once complete, a body buffer of pointer and length, or
  \<open>(absent, 0)\<close> on failure. The host completes a fetch with a result code
  and a body view, here the address of the payload and its bytes.
\<close>

record AsyncHttpFetchState =
  fetch_result :: "Result option"
  body :: "nat option"
  body_size :: nat

definition fetch_complete :: "AsyncHttpFetchState \<Rightarrow> Result \<Rightarrow> nat \<Rightarrow> string \<Rightarrow> AsyncHttpFetchState" where
  "fetch_complete st rc addr payload =
     (if rc = RESULT_SUCCESS
      then st\<lparr>fetch_result := Some rc, body := Some addr, body_size := length payload\<rparr>
      else st\<lparr>fetch_result := Some rc, body := None, body_size := 0\<rparr>)"

text \<open>
  Modelled from the spec: \<open>getResponseBody(body, body_size)\<close>, whose two
  output arguments are the pair returned.
\<close>

definition getResponseBody :: "AsyncHttpFetchState \<Rightarrow> nat option \<times> nat" where
  "getResponseBody st = (body st, body_size st)"

section \<open>Properties of the timer\<close>

subsection \<open>The effect of each function on the fields of the world\<close>

lemma clear_initial_fields:
  "state (clear_initial w) = (state w)\<lparr>initial_timer_action := None\<rparr>"
  "pending (clear_initial w) = pending w"
  "calls (clear_initial w) = calls w"
  "next_id (clear_initial w) = next_id w"
  "state_deleted (clear_initial w) = state_deleted w"
  by (simp_all add: clear_initial_def)

lemma arm_periodic_fields:
  "state (arm_periodic w) = (state w)\<lparr>periodic_timer_action := Some (Suc (next_id w))\<rparr>"
  "pending (arm_periodic w) = pending w @
     [\<lparr>action = Suc (next_id w), target = cont (state w), delay_ms = period_in_ms (state w), every = True\<rparr>]"
  "calls (arm_periodic w) = calls w @
     [ContScheduleEvery (cont (state w)) (period_in_ms (state w)) (Suc (next_id w))]"
  "next_id (arm_periodic w) = Suc (next_id w)"
  "state_deleted (arm_periodic w) = state_deleted w"
  by (simp_all add: arm_periodic_def TSContScheduleEvery_def Let_def)

lemma destructor_fields:
  "state (AsyncTimer_destructor w) = state w"
  "pending (AsyncTimer_destructor w) =
     filter (\<lambda>s. Some (action s) \<noteq> initial_timer_action (state w) \<and>
                 Some (action s) \<noteq> periodic_timer_action (state w)) (pending w)"
  "calls (AsyncTimer_destructor w) =
     calls w @ cancels (state w) @ [ContDestroy (cont (state w)), StateDelete]"
  "next_id (AsyncTimer_destructor w) = next_id w"
  "state_deleted (AsyncTimer_destructor w) = True"
  by (cases "initial_timer_action (state w)"; cases "periodic_timer_action (state w)";
      simp add: AsyncTimer_destructor_def cancel_initial_def cancel_periodic_def
        delete_state_def TSActionCancel_def TSContDestroy_def cancels_def Let_def)+

lemma run_fields:
  "state (run w dc) =
     (if one_off_timeout_in_ms (state w) \<noteq> 0
      then (state w)\<lparr>initial_timer_action := Some (Suc (next_id w)), dispatch_controller := dc\<rparr>
      else if regular_timeout_in_ms (state w) \<noteq> 0
      then (state w)\<lparr>periodic_timer_action := Some (Suc (next_id w)), dispatch_controller := dc\<rparr>
      else (state w)\<lparr>dispatch_controller := dc\<rparr>)"
  "pending (run w dc) =
     (if one_off_timeout_in_ms (state w) \<noteq> 0
      then pending w @ [\<lparr>action = Suc (next_id w), target = cont (state w),
                          delay_ms = one_off_timeout_in_ms (state w), every = False\<rparr>]
      else if regular_timeout_in_ms (state w) \<noteq> 0
      then pending w @ [\<lparr>action = Suc (next_id w), target = cont (state w),
                          delay_ms = regular_timeout_in_ms (state w), every = True\<rparr>]
      else pending w)"
  "calls (run w dc) =
     (if one_off_timeout_in_ms (state w) \<noteq> 0
      then calls w @ [ContSchedule (cont (state w)) (one_off_timeout_in_ms (state w)) (Suc (next_id w))]
      else if regular_timeout_in_ms (state w) \<noteq> 0
      then calls w @ [ContScheduleEvery (cont (state w)) (regular_timeout_in_ms (state w)) (Suc (next_id w))]
      else calls w)"
  "next_id (run w dc) =
     (if one_off_timeout_in_ms (state w) \<noteq> 0 \<or> regular_timeout_in_ms (state w) \<noteq> 0
      then Suc (next_id w) else next_id w)"
  "state_deleted (run w dc) = state_deleted w"
  by (simp_all add: run_def run_arm_def TSContSchedule_def TSContScheduleEvery_def Let_def)

lemma AsyncTimer_fields:
  "state (AsyncTimer ty p ip h) = AsyncTimerState_new ty p ip (Suc (next_id h))"
  "pending (AsyncTimer ty p ip h) = pending h"
  "calls (AsyncTimer ty p ip h) = calls h @ [ContCreate (Suc (next_id h)), ContDataSet (Suc (next_id h))]"
  "next_id (AsyncTimer ty p ip h) = Suc (next_id h)"
  "state_deleted (AsyncTimer ty p ip h) = False"
  by (simp_all add: AsyncTimer_def TSContCreate_def TSContDataSet_def Let_def)

lemma is_schedule_every_simps [simp]:
  "is_schedule_every (ContCreate c) = False"
  "is_schedule_every (ContDataSet c) = False"
  "is_schedule_every (ContSchedule c ms a) = False"
  "is_schedule_every (ContScheduleEvery c ms a) = True"
  "is_schedule_every (ActionCancel a) = False"
  "is_schedule_every (ContDestroy c) = False"
  "is_schedule_every (Dispatch k d) = False"
  "is_schedule_every StateDelete = False"
  by (simp_all add: is_schedule_every_def)

lemma filter_every_cancels [simp]: "filter is_schedule_every (cancels st) = []"
  by (simp add: cancels_def split: option.splits)

lemma filter_armed [simp]:
  "filter (\<lambda>s. Some (action s) \<noteq> initial_timer_action st \<and>
               Some (action s) \<noteq> periodic_timer_action st) (armed st) = []"
  by (simp add: armed_def split: option.splits)

lemma timer_inv_run: "timer_inv (run (AsyncTimer ty p ip host0) dc)"
  by (cases ty)
     (simp_all add: timer_inv_def run_fields AsyncTimer_fields AsyncTimerState_new_def
        armed_def host0_def one_off_timeout_in_ms_def regular_timeout_in_ms_def)

lemma timer_inv_destructor:
  assumes "timer_inv w"
  shows "timer_inv (AsyncTimer_destructor w)"
  using assms by (simp add: timer_inv_def destructor_fields)

lemma timer_transition_cases:
  "initial_timer_action (state w) = None \<Longrightarrow> timer_transition w = w"
  "initial_timer_action (state w) = Some a \<Longrightarrow> type (state w) = TYPE_ONE_OFF \<Longrightarrow>
     timer_transition w = clear_initial w"
  "initial_timer_action (state w) = Some a \<Longrightarrow> type (state w) = TYPE_PERIODIC \<Longrightarrow>
     timer_transition w = arm_periodic (clear_initial w)"
  by (simp_all add: timer_transition_def clear_initial_fields Let_def)

lemma timer_transition_controller [simp]:
  "dispatch_controller (state (timer_transition w)) = dispatch_controller (state w)"
  by (cases "initial_timer_action (state w)"; cases "type (state w)")
     (simp_all add: timer_transition_cases clear_initial_fields arm_periodic_fields)

lemma handleTimerEvent_Inr:
  assumes "handleTimerEvent w d = Inr w2"
  obtains c where "dispatch_controller (state w) = Some c"
    and "w2 = (if d then (timer_transition w)\<lparr>calls := calls (timer_transition w) @ [Dispatch c d]\<rparr>
               else AsyncTimer_destructor
                      ((timer_transition w)\<lparr>calls := calls (timer_transition w) @ [Dispatch c d]\<rparr>))"
  using assms
  by (cases "dispatch_controller (state w)") (auto simp: handleTimerEvent_def Let_def split: if_splits)

lemma deliver_Inr:
  assumes "timer_inv w" and "deliver w a = Inr w1"
  shows "\<not> state_deleted w \<and>
         ((initial_timer_action (state w) = Some a \<and> periodic_timer_action (state w) = None \<and>
           w1 = w\<lparr>pending := []\<rparr>) \<or>
          (initial_timer_action (state w) = None \<and> periodic_timer_action (state w) = Some a \<and>
           w1 = w))"
proof -
  from assms(2) have nd: "\<not> state_deleted w"
    by (auto simp: deliver_def split: option.splits if_splits)
  with assms(1) have pw: "pending w = armed (state w)"
    and amo: "initial_timer_action (state w) = None \<or> periodic_timer_action (state w) = None"
    by (simp_all add: timer_inv_def)
  show ?thesis
  proof (cases "initial_timer_action (state w)")
    case None
    note ini = this
    show ?thesis
    proof (cases "periodic_timer_action (state w)")
      case None
      with ini pw assms(2) show ?thesis by (simp add: deliver_def armed_def)
    next
      case (Some b)
      with ini pw nd assms(2) show ?thesis
        by (simp add: deliver_def armed_def split: if_splits)
    qed
  next
    case (Some a0)
    with amo have "periodic_timer_action (state w) = None" by simp
    with Some pw nd assms(2) show ?thesis
      by (auto simp: deliver_def armed_def split: if_splits)
  qed
qed

lemma timer_inv_dispatched:
  assumes inv: "timer_inv w" and del: "deliver w a = Inr w1"
  shows "timer_inv ((timer_transition w1)\<lparr>calls := calls (timer_transition w1) @ [Dispatch c d]\<rparr>) \<and>
         \<not> state_deleted (timer_transition w1) \<and>
         initial_timer_action (state (timer_transition w1)) = None \<and>
         (type (state w) = TYPE_PERIODIC \<longrightarrow> periodic_timer_action (state (timer_transition w1)) \<noteq> None)"
proof -
  from deliver_Inr [OF inv del] have nd: "\<not> state_deleted w"
    and cases: "(initial_timer_action (state w) = Some a \<and> periodic_timer_action (state w) = None \<and>
           w1 = w\<lparr>pending := []\<rparr>) \<or>
          (initial_timer_action (state w) = None \<and> periodic_timer_action (state w) = Some a \<and>
           w1 = w)"
    by simp_all
  let ?t = "timer_transition w1"
  from cases show ?thesis
  proof
    assume h: "initial_timer_action (state w) = Some a \<and> periodic_timer_action (state w) = None \<and>
           w1 = w\<lparr>pending := []\<rparr>"
    show ?thesis
    proof (cases "type (state w)")
      case TYPE_ONE_OFF
      with h have "?t = clear_initial w1" by (simp add: timer_transition_cases)
      with h inv nd TYPE_ONE_OFF show ?thesis
        by (simp add: timer_inv_def clear_initial_fields armed_def)
    next
      case TYPE_PERIODIC
      with h have "?t = arm_periodic (clear_initial w1)" by (simp add: timer_transition_cases)
      with h inv nd TYPE_PERIODIC show ?thesis
        by (simp add: timer_inv_def clear_initial_fields arm_periodic_fields armed_def)
    qed
  next
    assume h: "initial_timer_action (state w) = None \<and> periodic_timer_action (state w) = Some a \<and>
           w1 = w"
    then have "?t = w" by (simp add: timer_transition_cases)
    with h inv nd show ?thesis by (simp add: timer_inv_def)
  qed
qed

lemma timer_inv_fire:
  assumes inv: "timer_inv w" and del: "deliver w a = Inr w1" and han: "handleTimerEvent w1 d = Inr w2"
  shows "timer_inv w2"
proof -
  let ?t = "timer_transition w1"
  from han obtain c where
    w2: "w2 = (if d then ?t\<lparr>calls := calls ?t @ [Dispatch c d]\<rparr>
               else AsyncTimer_destructor (?t\<lparr>calls := calls ?t @ [Dispatch c d]\<rparr>))"
    by (rule handleTimerEvent_Inr)
  from timer_inv_dispatched [OF inv del, of c d]
  have mid: "timer_inv (?t\<lparr>calls := calls ?t @ [Dispatch c d]\<rparr>)" by simp
  show ?thesis
  proof (cases d)
    case True
    with w2 mid show ?thesis by simp
  next
    case False
    with w2 timer_inv_destructor [OF mid] show ?thesis by simp
  qed
qed

lemma timer_inv_step:
  assumes "timer_inv w" and "step w e = Inr w2"
  shows "timer_inv w2"
proof (cases e)
  case (Fire a d)
  with assms(2) obtain w1 where "deliver w a = Inr w1" and "handleTimerEvent w1 d = Inr w2"
    by (auto split: sum.splits)
  with assms(1) show ?thesis by (rule timer_inv_fire)
next
  case Delete
  with assms show ?thesis by (auto split: if_splits intro: timer_inv_destructor)
qed

lemma timer_inv_steps:
  "timer_inv w \<Longrightarrow> steps w evs = Inr w2 \<Longrightarrow> timer_inv w2"
proof (induction evs arbitrary: w)
  case Nil
  then show ?case by simp
next
  case (Cons e es)
  from Cons.prems(2) obtain w1 where s: "step w e = Inr w1" and r: "steps w1 es = Inr w2"
    by (auto split: sum.splits)
  from timer_inv_step [OF Cons.prems(1) s] r show ?case by (rule Cons.IH)
qed

lemma timer_inv_lifecycle:
  "lifecycle ty p ip dc evs = Inr w \<Longrightarrow> timer_inv w"
  unfolding lifecycle_def by (rule timer_inv_steps [OF timer_inv_run])

lemma steps_append:
  "steps w (xs @ ys) = (case steps w xs of Inl x \<Rightarrow> Inl x | Inr w1 \<Rightarrow> steps w1 ys)"
  by (induction xs arbitrary: w) (simp_all split: sum.splits)

lemma deliver_nothing_pending: "pending w = [] \<Longrightarrow> deliver w a = Inl NotPending"
  by (simp add: deliver_def)

lemma handleTimerEvent_Some:
  "dispatch_controller (state w) = Some c \<Longrightarrow>
   handleTimerEvent w d =
     Inr (if d then (timer_transition w)\<lparr>calls := calls (timer_transition w) @ [Dispatch c d]\<rparr>
          else AsyncTimer_destructor
                 ((timer_transition w)\<lparr>calls := calls (timer_transition w) @ [Dispatch c d]\<rparr>))"
  by (simp add: handleTimerEvent_def Let_def)

subsection \<open>What \<open>run\<close> arms\<close>

text \<open>
  C1, as amended. \<open>run\<close> on a freshly constructed timer never arms two
  handles. It arms exactly one when the delay it selects is not zero (a
  one-off timer with a nonzero period, a periodic timer with a nonzero
  initial period or a nonzero period) and none otherwise; the host's new
  pending callbacks are exactly the ones the two handle fields stand for.
\<close>

theorem run_arms_at_most_one:
  "armed_count (state (run (AsyncTimer ty p ip h) dc)) =
     (if (ty = TYPE_ONE_OFF \<and> p \<noteq> 0) \<or> (ty = TYPE_PERIODIC \<and> (ip \<noteq> 0 \<or> p \<noteq> 0))
      then 1 else 0) \<and>
   pending (run (AsyncTimer ty p ip h) dc) =
     pending h @ armed (state (run (AsyncTimer ty p ip h) dc)) \<and>
   length (armed (state (run (AsyncTimer ty p ip h) dc))) =
     armed_count (state (run (AsyncTimer ty p ip h) dc))"
  by (cases ty)
     (simp_all add: armed_count_def armed_def run_fields AsyncTimer_fields AsyncTimerState_new_def
        one_off_timeout_in_ms_def regular_timeout_in_ms_def)

theorem run_arms_at_most_one_witness:
  "armed_count (state (run (AsyncTimer TYPE_PERIODIC 200 50 host0) (Some 7))) = 1 \<and>
   armed_count (state (run (AsyncTimer TYPE_PERIODIC 0 0 host0) (Some 7))) = 0 \<and>
   pending (run (AsyncTimer TYPE_PERIODIC 200 50 host0) (Some 7)) =
     [\<lparr>action = 2, target = 1, delay_ms = 50, every = False\<rparr>]"
  using run_arms_at_most_one [of TYPE_PERIODIC 200 50 host0 "Some 7"]
    run_arms_at_most_one [of TYPE_PERIODIC 0 0 host0 "Some 7"]
  by (simp add: armed_def run_fields AsyncTimer_fields AsyncTimerState_new_def
        one_off_timeout_in_ms_def regular_timeout_in_ms_def host0_def)

text \<open>
  C1 as the spec states it fails: a one-off timer with period 0 is run and
  neither handle is armed, nor is anything pending in the host.
\<close>

theorem run_arms_exactly_one_counterexample:
  "armed_count (state (run (AsyncTimer TYPE_ONE_OFF 0 0 host0) (Some 7))) = 0 \<and>
   pending (run (AsyncTimer TYPE_ONE_OFF 0 0 host0) (Some 7)) = []"
  by (simp add: armed_count_def run_fields AsyncTimer_fields AsyncTimerState_new_def
        one_off_timeout_in_ms_def regular_timeout_in_ms_def host0_def)

text \<open>
  C2, as amended. The delay \<open>run\<close> selects: its one-off timeout is
  \<open>period_in_ms_\<close> for a one-off timer and \<open>initial_period_in_ms_\<close> for a
  periodic one, its regular timeout is 0 and \<open>period_in_ms_\<close>. For a one-off timer
  \<open>period_in_ms_\<close> is the one-off delay, armed when it is not zero, and the
  initial period is not used: another initial period gives the same world,
  that field apart. For a periodic timer with a nonzero initial period the
  first fire is a one-off at the initial period, and the callback of that
  fire arms the periodic action at \<open>period_in_ms_\<close>. For a periodic timer
  with initial period 0 the periodic action is armed by \<open>run\<close> at
  \<open>period_in_ms_\<close> when that is not zero, and nothing is armed when it is.
\<close>

theorem run_selects_delay:
  "(pending (run (AsyncTimer TYPE_ONE_OFF p ip host0) dc) =
      (if p = 0 then [] else [\<lparr>action = 2, target = 1, delay_ms = p, every = False\<rparr>]) \<and>
    run (AsyncTimer TYPE_ONE_OFF p ip host0) dc =
      (run (AsyncTimer TYPE_ONE_OFF p ip' host0) dc)
        \<lparr>state := (state (run (AsyncTimer TYPE_ONE_OFF p ip' host0) dc))\<lparr>initial_period_in_ms := ip\<rparr>\<rparr>) \<and>
   (ip \<noteq> 0 \<longrightarrow>
      pending (run (AsyncTimer TYPE_PERIODIC p ip host0) dc) =
        [\<lparr>action = 2, target = 1, delay_ms = ip, every = False\<rparr>] \<and>
      (\<exists>w. lifecycle TYPE_PERIODIC p ip (Some c) [Fire 2 True] = Inr w \<and>
           pending w = [\<lparr>action = 3, target = 1, delay_ms = p, every = True\<rparr>])) \<and>
   pending (run (AsyncTimer TYPE_PERIODIC p 0 host0) dc) =
     (if p = 0 then [] else [\<lparr>action = 2, target = 1, delay_ms = p, every = True\<rparr>]) \<and>
   one_off_timeout_in_ms (AsyncTimerState_new TYPE_ONE_OFF p ip k) = p \<and>
   regular_timeout_in_ms (AsyncTimerState_new TYPE_ONE_OFF p ip k) = 0 \<and>
   one_off_timeout_in_ms (AsyncTimerState_new TYPE_PERIODIC p ip k) = ip \<and>
   regular_timeout_in_ms (AsyncTimerState_new TYPE_PERIODIC p ip k) = p"
proof -
  have sel: "one_off_timeout_in_ms (AsyncTimerState_new TYPE_ONE_OFF p ip k) = p"
    "regular_timeout_in_ms (AsyncTimerState_new TYPE_ONE_OFF p ip k) = 0"
    "one_off_timeout_in_ms (AsyncTimerState_new TYPE_PERIODIC p ip k) = ip"
    "regular_timeout_in_ms (AsyncTimerState_new TYPE_PERIODIC p ip k) = p"
    by (simp_all add: one_off_timeout_in_ms_def regular_timeout_in_ms_def AsyncTimerState_new_def)
  have one_off: "pending (run (AsyncTimer TYPE_ONE_OFF p ip host0) dc) =
      (if p = 0 then [] else [\<lparr>action = 2, target = 1, delay_ms = p, every = False\<rparr>])"
    by (simp add: run_fields AsyncTimer_fields AsyncTimerState_new_def
          one_off_timeout_in_ms_def regular_timeout_in_ms_def host0_def)
  have unused: "run (AsyncTimer TYPE_ONE_OFF p ip host0) dc =
      (run (AsyncTimer TYPE_ONE_OFF p ip' host0) dc)
        \<lparr>state := (state (run (AsyncTimer TYPE_ONE_OFF p ip' host0) dc))\<lparr>initial_period_in_ms := ip\<rparr>\<rparr>"
    by (simp add: run_def run_arm_def AsyncTimer_def AsyncTimerState_new_def TSContCreate_def
          TSContDataSet_def TSContSchedule_def one_off_timeout_in_ms_def
          regular_timeout_in_ms_def host0_def Let_def)
  have periodic0: "pending (run (AsyncTimer TYPE_PERIODIC p 0 host0) dc) =
     (if p = 0 then [] else [\<lparr>action = 2, target = 1, delay_ms = p, every = True\<rparr>])"
    by (simp add: run_fields AsyncTimer_fields AsyncTimerState_new_def
          one_off_timeout_in_ms_def regular_timeout_in_ms_def host0_def)
  have initial: "pending (run (AsyncTimer TYPE_PERIODIC p ip host0) dc) =
        [\<lparr>action = 2, target = 1, delay_ms = ip, every = False\<rparr>]" if "ip \<noteq> 0"
    using that
    by (simp add: run_fields AsyncTimer_fields AsyncTimerState_new_def
          one_off_timeout_in_ms_def regular_timeout_in_ms_def host0_def)
  have steady: "\<exists>w. lifecycle TYPE_PERIODIC p ip (Some c) [Fire 2 True] = Inr w \<and>
           pending w = [\<lparr>action = 3, target = 1, delay_ms = p, every = True\<rparr>]" if "ip \<noteq> 0"
    using that
    by (simp add: lifecycle_def deliver_def handleTimerEvent_Some timer_transition_cases
          clear_initial_fields arm_periodic_fields run_fields AsyncTimer_fields
          AsyncTimerState_new_def one_off_timeout_in_ms_def regular_timeout_in_ms_def host0_def)
  from one_off unused periodic0 initial steady sel show ?thesis by blast
qed

theorem run_selects_delay_witness:
  "pending (run (AsyncTimer TYPE_PERIODIC 200 50 host0) (Some 7)) =
     [\<lparr>action = 2, target = 1, delay_ms = 50, every = False\<rparr>] \<and>
   (\<exists>w. lifecycle TYPE_PERIODIC 200 50 (Some 7) [Fire 2 True] = Inr w \<and>
        pending w = [\<lparr>action = 3, target = 1, delay_ms = 200, every = True\<rparr>]) \<and>
   pending (run (AsyncTimer TYPE_ONE_OFF 100 50 host0) (Some 7)) =
     [\<lparr>action = 2, target = 1, delay_ms = 100, every = False\<rparr>] \<and>
   pending (run (AsyncTimer TYPE_PERIODIC 200 0 host0) (Some 7)) =
     [\<lparr>action = 2, target = 1, delay_ms = 200, every = True\<rparr>]"
  using
    run_selects_delay [where p = 200 and ip = 50 and dc = "Some 7" and c = 7,
      THEN conjunct2, THEN conjunct1, rule_format]
    run_selects_delay [where p = 200 and ip = 50 and dc = "Some 7" and c = 7,
      THEN conjunct2, THEN conjunct2]
    run_selects_delay [where p = 100 and ip = 50 and dc = "Some 7" and c = 7,
      THEN conjunct1, THEN conjunct1]
  by simp

text \<open>
  C2 as the spec states it fails: a periodic timer with both periods 0 is
  run and no periodic action is armed; the host was never asked to schedule.
\<close>

theorem periodic_armed_immediately_counterexample:
  "periodic_timer_action (state (run (AsyncTimer TYPE_PERIODIC 0 0 host0) (Some 7))) = None \<and>
   pending (run (AsyncTimer TYPE_PERIODIC 0 0 host0) (Some 7)) = [] \<and>
   calls (run (AsyncTimer TYPE_PERIODIC 0 0 host0) (Some 7)) = [ContCreate 1, ContDataSet 1]"
  by (simp add: run_fields AsyncTimer_fields AsyncTimerState_new_def
        one_off_timeout_in_ms_def regular_timeout_in_ms_def host0_def)

subsection \<open>A timer whose selected delay is zero\<close>

lemma idle_step:
  assumes "timer_inv w" and "initial_timer_action (state w) = None"
    and "periodic_timer_action (state w) = None" and "step w e = Inr w1"
  shows "initial_timer_action (state w1) = None \<and> periodic_timer_action (state w1) = None"
proof (cases e)
  case (Fire a d)
  from assms(1-3) have "pending w = []" by (simp add: timer_inv_def armed_def)
  then have "deliver w a = Inl NotPending" by (rule deliver_nothing_pending)
  with Fire assms(4) show ?thesis by simp
next
  case Delete
  with assms show ?thesis by (auto simp: destructor_fields split: if_splits)
qed

lemma idle_steps:
  "timer_inv w \<Longrightarrow> initial_timer_action (state w) = None \<Longrightarrow>
   periodic_timer_action (state w) = None \<Longrightarrow> steps w evs = Inr w2 \<Longrightarrow>
   pending w2 = []"
proof (induction evs arbitrary: w)
  case Nil
  then show ?case by (simp add: timer_inv_def armed_def)
next
  case (Cons e es)
  from Cons.prems(4) obtain w1 where s: "step w e = Inr w1" and r: "steps w1 es = Inr w2"
    by (auto split: sum.splits)
  from idle_step [OF Cons.prems(1-3) s] timer_inv_step [OF Cons.prems(1) s] r
  show ?case by (auto intro: Cons.IH)
qed

text \<open>
  C10. When the delay \<open>run\<close> selects is zero (a one-off timer with period
  0, or a periodic timer with both periods 0), \<open>run\<close> arms nothing: both
  handle fields stay \<open>NULL\<close>, the host has nothing pending and was never
  asked to schedule. The dispatch controller is stored all the same. No
  callback ever fires: a life of the timer in which the host fires an action
  is not a possible one.
\<close>

theorem zero_timeout_arms_nothing:
  assumes "(ty = TYPE_ONE_OFF \<and> p = 0) \<or> (ty = TYPE_PERIODIC \<and> ip = 0 \<and> p = 0)"
  shows "initial_timer_action (state (run (AsyncTimer ty p ip host0) dc)) = None \<and>
         periodic_timer_action (state (run (AsyncTimer ty p ip host0) dc)) = None \<and>
         pending (run (AsyncTimer ty p ip host0) dc) = [] \<and>
         calls (run (AsyncTimer ty p ip host0) dc) = [ContCreate 1, ContDataSet 1] \<and>
         dispatch_controller (state (run (AsyncTimer ty p ip host0) dc)) = dc \<and>
         lifecycle ty p ip dc [] = Inr (run (AsyncTimer ty p ip host0) dc) \<and>
         (\<forall>evs a d evs'. isl (lifecycle ty p ip dc (evs @ Fire a d # evs')))"
proof -
  let ?W = "run (AsyncTimer ty p ip host0) dc"
  from assms have f: "initial_timer_action (state ?W) = None \<and>
         periodic_timer_action (state ?W) = None \<and> pending ?W = [] \<and>
         calls ?W = [ContCreate 1, ContDataSet 1] \<and>
         dispatch_controller (state ?W) = dc"
    by (auto simp: run_fields AsyncTimer_fields AsyncTimerState_new_def
          one_off_timeout_in_ms_def regular_timeout_in_ms_def host0_def)
  have "isl (lifecycle ty p ip dc (evs @ Fire a d # evs'))" for evs a d evs'
  proof (cases "steps ?W evs")
    case (Inl x)
    then show ?thesis by (simp add: lifecycle_def steps_append)
  next
    case (Inr w)
    with f have "pending w = []" by (auto intro: idle_steps [OF timer_inv_run])
    then have "deliver w a = Inl NotPending" by (rule deliver_nothing_pending)
    with Inr show ?thesis by (simp add: lifecycle_def steps_append)
  qed
  with f show ?thesis by (simp add: lifecycle_def)
qed

theorem zero_timeout_arms_nothing_witness:
  "pending (run (AsyncTimer TYPE_PERIODIC 0 0 host0) (Some 7)) = [] \<and>
   dispatch_controller (state (run (AsyncTimer TYPE_PERIODIC 0 0 host0) (Some 7))) = Some 7 \<and>
   isl (lifecycle TYPE_PERIODIC 0 0 (Some 7) [Fire 2 True]) \<and>
   isl (lifecycle TYPE_ONE_OFF 0 50 (Some 7) [Delete, Fire 2 True])"
  using zero_timeout_arms_nothing [of TYPE_PERIODIC 0 0 "Some 7"]
    zero_timeout_arms_nothing [of TYPE_ONE_OFF 0 50 "Some 7", THEN conjunct2, THEN conjunct2,
      THEN conjunct2, THEN conjunct2, THEN conjunct2, THEN conjunct2, rule_format,
      of "[Delete]" 2 True "[]"]
    zero_timeout_arms_nothing [of TYPE_PERIODIC 0 0 "Some 7", THEN conjunct2, THEN conjunct2,
      THEN conjunct2, THEN conjunct2, THEN conjunct2, THEN conjunct2, rule_format,
      of "[]" 2 True "[]"]
  by simp

subsection \<open>Every point of a timer's life\<close>

lemma destructor_points_state:
  "w1 \<in> set (AsyncTimer_destructor_points w) \<Longrightarrow> state w1 = state w"
  by (cases "initial_timer_action (state w)"; cases "periodic_timer_action (state w)")
     (auto simp: AsyncTimer_destructor_points_def cancel_initial_def cancel_periodic_def
        delete_state_def TSActionCancel_def TSContDestroy_def Let_def)

lemma deliver_state: "deliver w a = Inr w1 \<Longrightarrow> state w1 = state w"
  by (auto simp: deliver_def split: option.splits if_splits)

lemma handler_result_point:
  "handleTimerEvent w d = Inr w1 \<Longrightarrow> w1 \<in> set (handleTimerEvent_points w d)"
  by (cases "dispatch_controller (state w)")
     (auto simp: handleTimerEvent_def handleTimerEvent_points_def AsyncTimer_destructor_def
        AsyncTimer_destructor_points_def Let_def split: if_splits)

lemma step_result_point: "step w e = Inr w1 \<Longrightarrow> w1 \<in> set (step_points w e)"
proof (cases e)
  case (Fire a d)
  assume "step w e = Inr w1"
  with Fire show ?thesis by (auto split: sum.splits dest: handler_result_point)
next
  case Delete
  assume "step w e = Inr w1"
  with Delete show ?thesis
    by (auto simp: AsyncTimer_destructor_def AsyncTimer_destructor_points_def Let_def
          split: if_splits)
qed

lemma steps_result_point: "steps w evs = Inr w1 \<Longrightarrow> w1 \<in> set (points w evs)"
proof (induction evs arbitrary: w)
  case Nil
  then show ?case by simp
next
  case (Cons e es)
  from Cons.prems obtain w2 where "step w e = Inr w2" and "steps w2 es = Inr w1"
    by (cases "step w e") auto
  with Cons.IH [of w2] show ?case by simp
qed

lemma lifecycle_result_point:
  "lifecycle ty p ip dc evs = Inr w \<Longrightarrow> w \<in> set (lifecycle_points ty p ip dc evs)"
  by (simp add: lifecycle_def lifecycle_points_def steps_result_point)

text \<open>
  A property of the state that survives line 44 and, for a periodic timer
  whose initial handle is clear, line 47, holds at every point of every event.
\<close>

lemma state_at_handler_points:
  assumes q: "Q (state w)"
    and clear: "\<And>st. Q st \<Longrightarrow> Q (st\<lparr>initial_timer_action := None\<rparr>)"
    and arm: "\<And>st a. Q st \<Longrightarrow> type st = TYPE_PERIODIC \<Longrightarrow> initial_timer_action st = None \<Longrightarrow>
               Q (st\<lparr>periodic_timer_action := Some a\<rparr>)"
    and mem: "w1 \<in> set (handleTimerEvent_points w d)"
  shows "Q (state w1)"
proof -
  let ?t = "timer_transition w"
  have qc: "Q (state (clear_initial w))"
    using q by (simp add: clear_initial_fields clear)
  have qa: "Q (state (arm_periodic (clear_initial w)))" if "type (state w) = TYPE_PERIODIC"
    using that q by (simp add: clear_initial_fields arm_periodic_fields clear arm)
  have qt: "Q (state ?t)"
    by (cases "initial_timer_action (state w)"; cases "type (state w)")
       (simp_all add: timer_transition_cases q qc qa)
  from mem consider
      (clear) "w1 = clear_initial w"
    | (arm) "type (state w) = TYPE_PERIODIC" "w1 = arm_periodic (clear_initial w)"
    | (disp) c where "w1 = ?t\<lparr>calls := calls ?t @ [Dispatch c d]\<rparr>"
    | (dest) c where "w1 \<in> set (AsyncTimer_destructor_points (?t\<lparr>calls := calls ?t @ [Dispatch c d]\<rparr>))"
    by (auto simp: handleTimerEvent_points_def Let_def split: if_splits option.splits)
  then show ?thesis
  proof cases
    case clear
    with qc show ?thesis by simp
  next
    case arm
    with qa show ?thesis by simp
  next
    case disp
    with qt show ?thesis by simp
  next
    case dest
    from destructor_points_state [OF dest] qt show ?thesis by simp
  qed
qed

lemma state_at_step_points:
  assumes q: "Q (state w)"
    and clear: "\<And>st. Q st \<Longrightarrow> Q (st\<lparr>initial_timer_action := None\<rparr>)"
    and arm: "\<And>st a. Q st \<Longrightarrow> type st = TYPE_PERIODIC \<Longrightarrow> initial_timer_action st = None \<Longrightarrow>
               Q (st\<lparr>periodic_timer_action := Some a\<rparr>)"
    and mem: "w1 \<in> set (step_points w e)"
  shows "Q (state w1)"
proof (cases e)
  case (Fire a d)
  show ?thesis
  proof (cases "deliver w a")
    case (Inl x)
    with Fire mem show ?thesis by simp
  next
    case (Inr w0)
    from deliver_state [OF Inr] q have q0: "Q (state w0)" by simp
    from Fire Inr mem consider "w1 = w0" | "w1 \<in> set (handleTimerEvent_points w0 d)" by auto
    then show ?thesis
    proof cases
      case 1
      with q0 show ?thesis by simp
    next
      case 2
      from q0 clear arm 2 show ?thesis by (rule state_at_handler_points)
    qed
  qed
next
  case Delete
  with mem have "w1 \<in> set (AsyncTimer_destructor_points w)" by (simp split: if_splits)
  from destructor_points_state [OF this] q show ?thesis by simp
qed

lemma state_at_points:
  assumes clear: "\<And>st. Q st \<Longrightarrow> Q (st\<lparr>initial_timer_action := None\<rparr>)"
    and arm: "\<And>st a. Q st \<Longrightarrow> type st = TYPE_PERIODIC \<Longrightarrow> initial_timer_action st = None \<Longrightarrow>
               Q (st\<lparr>periodic_timer_action := Some a\<rparr>)"
  shows "Q (state w) \<Longrightarrow> w1 \<in> set (points w evs) \<Longrightarrow> Q (state w1)"
proof (induction evs arbitrary: w)
  case Nil
  then show ?case by simp
next
  case (Cons e es)
  from Cons.prems(2) consider "w1 = w" | "w1 \<in> set (step_points w e)"
    | w2 where "step w e = Inr w2" "w1 \<in> set (points w2 es)"
    by (cases "step w e") auto
  then show ?case
  proof cases
    case 1
    with Cons.prems(1) show ?thesis by simp
  next
    case 2
    from Cons.prems(1) clear arm 2 show ?thesis by (rule state_at_step_points)
  next
    case 3
    from Cons.prems(1) clear arm step_result_point [OF 3(1)] have "Q (state w2)"
      by (rule state_at_step_points)
    from this 3(2) show ?thesis by (rule Cons.IH)
  qed
qed

lemma regular_timeout_periodic: "regular_timeout_in_ms st \<noteq> 0 \<Longrightarrow> type st = TYPE_PERIODIC"
  by (cases "type st") (simp_all add: regular_timeout_in_ms_def)

lemma state_at_lifecycle_points:
  assumes new: "Q (AsyncTimerState_new ty p ip 1)"
    and armed1: "\<And>st a. Q st \<Longrightarrow> periodic_timer_action st = None \<Longrightarrow>
                  Q (st\<lparr>initial_timer_action := Some a\<rparr>)"
    and ctrl: "\<And>st. Q st \<Longrightarrow> Q (st\<lparr>dispatch_controller := dc\<rparr>)"
    and clear: "\<And>st. Q st \<Longrightarrow> Q (st\<lparr>initial_timer_action := None\<rparr>)"
    and arm: "\<And>st a. Q st \<Longrightarrow> type st = TYPE_PERIODIC \<Longrightarrow> initial_timer_action st = None \<Longrightarrow>
               Q (st\<lparr>periodic_timer_action := Some a\<rparr>)"
    and mem: "w \<in> set (lifecycle_points ty p ip dc evs)"
  shows "Q (state w)"
proof -
  let ?c = "AsyncTimer ty p ip host0"
  have sc: "state ?c = AsyncTimerState_new ty p ip 1"
    by (simp add: AsyncTimer_fields host0_def)
  have c: "Q (state ?c)" using new by (simp add: sc)
  have ini: "initial_timer_action (state ?c) = None" "periodic_timer_action (state ?c) = None"
    by (simp_all add: sc AsyncTimerState_new_def)
  have per: "type (state ?c) = TYPE_PERIODIC" if "regular_timeout_in_ms (state ?c) \<noteq> 0"
    using that by (rule regular_timeout_periodic)
  have a: "Q (state (run_arm ?c))"
    using c ini per
    by (simp add: run_arm_def TSContSchedule_def TSContScheduleEvery_def Let_def armed1 arm)
  have "state (run ?c dc) = (state (run_arm ?c))\<lparr>dispatch_controller := dc\<rparr>"
    by (simp add: run_def Let_def)
  with a have r: "Q (state (run ?c dc))" by (simp add: ctrl)
  from mem consider "w = ?c" | "w = run_arm ?c" | "w \<in> set (points (run ?c dc) evs)"
    by (auto simp: lifecycle_points_def)
  then show ?thesis
  proof cases
    case 3
    from clear arm r 3 show ?thesis by (rule state_at_points)
  qed (simp_all add: c a)
qed

text \<open>The definitions a concrete life is evaluated with.\<close>

lemmas eval_defs = lifecycle_points_def lifecycle_def run_fields AsyncTimer_fields AsyncTimerState_new_def
  one_off_timeout_in_ms_def regular_timeout_in_ms_def host0_def deliver_def
  handleTimerEvent_points_def handleTimerEvent_def timer_transition_def clear_initial_def
  arm_periodic_def TSContScheduleEvery_def TSContSchedule_def run_def run_arm_def AsyncTimer_def
  TSContCreate_def TSContDataSet_def Let_def AsyncTimer_destructor_points_def AsyncTimer_destructor_def
  cancel_initial_def cancel_periodic_def TSActionCancel_def TSContDestroy_def delete_state_def

text \<open>
  C3. At every point of a timer's life (constructed, run, and each
  statement boundary of each callback invocation and of the destructor) at
  most one of the two handle fields is set; the state a life ends in is one
  of those points. In the callback of a periodic timer whose initial action
  is pending, line 44 comes first and clears the initial handle, leaving the
  periodic one as it was, and only then does line 47 set the periodic handle.
\<close>

theorem at_most_one_action_live:
  "(\<forall>w \<in> set (lifecycle_points ty p ip dc evs).
      initial_timer_action (state w) = None \<or> periodic_timer_action (state w) = None) \<and>
   (\<forall>w. lifecycle ty p ip dc evs = Inr w \<longrightarrow> w \<in> set (lifecycle_points ty p ip dc evs)) \<and>
   (initial_timer_action (state w0) \<noteq> None \<longrightarrow> type (state w0) = TYPE_PERIODIC \<longrightarrow>
      take 2 (handleTimerEvent_points w0 d) = [clear_initial w0, arm_periodic (clear_initial w0)] \<and>
      initial_timer_action (state (clear_initial w0)) = None \<and>
      periodic_timer_action (state (clear_initial w0)) = periodic_timer_action (state w0) \<and>
      initial_timer_action (state (arm_periodic (clear_initial w0))) = None)"
proof -
  have "initial_timer_action (state w) = None \<or> periodic_timer_action (state w) = None"
    if "w \<in> set (lifecycle_points ty p ip dc evs)" for w
    by (rule state_at_lifecycle_points
          [where Q = "\<lambda>st. initial_timer_action st = None \<or> periodic_timer_action st = None",
           OF _ _ _ _ _ that])
       (simp_all add: AsyncTimerState_new_def)
  moreover have "take 2 (handleTimerEvent_points w0 d) =
       [clear_initial w0, arm_periodic (clear_initial w0)]"
    if "initial_timer_action (state w0) \<noteq> None" "type (state w0) = TYPE_PERIODIC"
    using that by (simp add: handleTimerEvent_points_def)
  ultimately show ?thesis
    by (simp add: lifecycle_result_point clear_initial_fields arm_periodic_fields)
qed

theorem at_most_one_action_live_witness:
  "map (\<lambda>w. (initial_timer_action (state w), periodic_timer_action (state w)))
     (lifecycle_points TYPE_PERIODIC 200 50 (Some 7) [Fire 2 True]) =
     [(None, None), (Some 2, None), (Some 2, None), (Some 2, None), (None, None),
      (None, Some 3), (None, Some 3), (None, Some 3)] \<and>
   initial_timer_action (state (run (AsyncTimer TYPE_PERIODIC 200 50 host0) (Some 7))) = Some 2 \<and>
   type (state (run (AsyncTimer TYPE_PERIODIC 200 50 host0) (Some 7))) = TYPE_PERIODIC \<and>
   map (\<lambda>w. (initial_timer_action (state w), periodic_timer_action (state w)))
     (take 2 (handleTimerEvent_points (run (AsyncTimer TYPE_PERIODIC 200 50 host0) (Some 7)) True)) =
     [(None, None), (None, Some 3)]"
  using at_most_one_action_live [of TYPE_PERIODIC 200 50 "Some 7" "[Fire 2 True]"
      "run (AsyncTimer TYPE_PERIODIC 200 50 host0) (Some 7)" True]
  by (simp add: eval_defs)

text \<open>
  C9. At every point of the life of a timer constructed with
  \<open>TYPE_ONE_OFF\<close>, the type is still \<open>TYPE_ONE_OFF\<close> and the periodic
  handle field is \<open>NULL\<close>.
\<close>

theorem one_off_never_arms_periodic:
  "\<forall>w \<in> set (lifecycle_points TYPE_ONE_OFF p ip dc evs).
     type (state w) = TYPE_ONE_OFF \<and> periodic_timer_action (state w) = None"
proof
  fix w assume "w \<in> set (lifecycle_points TYPE_ONE_OFF p ip dc evs)"
  show "type (state w) = TYPE_ONE_OFF \<and> periodic_timer_action (state w) = None"
    by (rule state_at_lifecycle_points
          [where Q = "\<lambda>st. type st = TYPE_ONE_OFF \<and> periodic_timer_action st = None",
           OF _ _ _ _ _ \<open>w \<in> set (lifecycle_points TYPE_ONE_OFF p ip dc evs)\<close>])
       (simp_all add: AsyncTimerState_new_def)
qed

theorem one_off_never_arms_periodic_witness:
  "map (\<lambda>w. (type (state w), initial_timer_action (state w), periodic_timer_action (state w)))
     (lifecycle_points TYPE_ONE_OFF 100 50 (Some 7) [Fire 2 True]) =
     [(TYPE_ONE_OFF, None, None), (TYPE_ONE_OFF, Some 2, None), (TYPE_ONE_OFF, Some 2, None),
      (TYPE_ONE_OFF, Some 2, None), (TYPE_ONE_OFF, None, None), (TYPE_ONE_OFF, None, None),
      (TYPE_ONE_OFF, None, None)]"
  using one_off_never_arms_periodic [of 100 50 "Some 7" "[Fire 2 True]"]
  by (simp add: eval_defs)

subsection \<open>A handle that has fired\<close>

lemma deliver_fields:
  assumes "deliver w a = Inr w1"
  shows "state w1 = state w" "calls w1 = calls w" "next_id w1 = next_id w"
    "state_deleted w1 = state_deleted w"
  using assms by (auto simp: deliver_def split: option.splits if_splits)

lemma cancels_set:
  "ActionCancel a \<in> set (cancels st) \<longleftrightarrow>
     initial_timer_action st = Some a \<or> periodic_timer_action st = Some a"
  by (auto simp: cancels_def split: option.splits)

lemma retired_destructor: "retired a w \<Longrightarrow> retired a (AsyncTimer_destructor w)"
  by (simp add: retired_def destructor_fields cancels_set)

lemma retired_transition: "retired a w \<Longrightarrow> retired a (timer_transition w)"
  by (cases "initial_timer_action (state w)"; cases "type (state w)")
     (auto simp: retired_def timer_transition_cases clear_initial_fields arm_periodic_fields)

lemma retired_dispatch: "retired a w \<Longrightarrow> retired a (w\<lparr>calls := calls w @ [Dispatch c d]\<rparr>)"
  by (simp add: retired_def)

lemma retired_step:
  assumes "retired a w" and "step w e = Inr w1"
  shows "retired a w1"
proof (cases e)
  case (Fire a' d)
  with assms(2) obtain w0 where del: "deliver w a' = Inr w0" and han: "handleTimerEvent w0 d = Inr w1"
    by (auto split: sum.splits)
  from assms(1) deliver_fields [OF del] have r0: "retired a w0" by (simp add: retired_def)
  from han obtain c where
    w1: "w1 = (if d then (timer_transition w0)\<lparr>calls := calls (timer_transition w0) @ [Dispatch c d]\<rparr>
               else AsyncTimer_destructor
                      ((timer_transition w0)\<lparr>calls := calls (timer_transition w0) @ [Dispatch c d]\<rparr>))"
    by (rule handleTimerEvent_Inr)
  from r0 have "retired a ((timer_transition w0)\<lparr>calls := calls (timer_transition w0) @ [Dispatch c d]\<rparr>)"
    by (intro retired_dispatch retired_transition)
  with w1 show ?thesis by (cases d) (simp_all add: retired_destructor)
next
  case Delete
  with assms show ?thesis by (auto split: if_splits intro: retired_destructor)
qed

lemma retired_steps: "retired a w \<Longrightarrow> steps w evs = Inr w1 \<Longrightarrow> retired a w1"
proof (induction evs arbitrary: w)
  case Nil
  then show ?case by simp
next
  case (Cons e es)
  from Cons.prems(2) obtain w2 where s: "step w e = Inr w2" and r: "steps w2 es = Inr w1"
    by (cases "step w e") auto
  from retired_step [OF Cons.prems(1) s] r show ?case by (rule Cons.IH)
qed

lemma fired_initial_retired:
  assumes inv: "timer_inv w" and ini: "initial_timer_action (state w) = Some a"
    and st: "step w (Fire a d) = Inr w1"
  shows "retired a w1 \<and> initial_timer_action (state w1) = None"
proof -
  from st obtain w0 where del: "deliver w a = Inr w0" and han: "handleTimerEvent w0 d = Inr w1"
    by (auto split: sum.splits)
  from deliver_Inr [OF inv del] ini have nd: "\<not> state_deleted w"
    and per: "periodic_timer_action (state w) = None"
    by simp_all
  from inv nd ini have le: "a \<le> next_id w" and nc: "ActionCancel a \<notin> set (calls w)"
    by (simp_all add: timer_inv_def)
  let ?t = "timer_transition w0"
  have t: "retired a ?t \<and> initial_timer_action (state ?t) = None"
    using deliver_fields [OF del] ini per le nc
    by (cases "type (state w)")
       (simp_all add: retired_def timer_transition_cases clear_initial_fields arm_periodic_fields)
  then have m: "retired a (?t\<lparr>calls := calls ?t @ [Dispatch c d]\<rparr>)" for c
    by (simp add: retired_dispatch)
  from han obtain c where
    "w1 = (if d then ?t\<lparr>calls := calls ?t @ [Dispatch c d]\<rparr>
               else AsyncTimer_destructor (?t\<lparr>calls := calls ?t @ [Dispatch c d]\<rparr>))"
    by (rule handleTimerEvent_Inr)
  with m [of c] t show ?thesis by (cases d) (simp_all add: retired_destructor destructor_fields)
qed

text \<open>
  C4. Take any life of a timer that reaches a state whose initial action is
  pending, let the host fire that action, and let the life go on in any way:
  in the callback itself (which destroys the timer when \<open>dispatch()\<close>
  returns false), and in whatever follows, the destructor included,
  \<open>TSActionCancel\<close> is never called on that handle, and the initial handle
  field stays \<open>NULL\<close>.
\<close>

theorem fired_initial_never_cancelled:
  assumes "lifecycle ty p ip dc evs = Inr w"
    and "initial_timer_action (state w) = Some a"
    and "lifecycle ty p ip dc (evs @ Fire a d # evs') = Inr w'"
  shows "ActionCancel a \<notin> set (calls w') \<and> initial_timer_action (state w') = None"
proof -
  from assms(1,3) have "steps w (Fire a d # evs') = Inr w'"
    by (simp add: lifecycle_def steps_append)
  then obtain w1 where s: "step w (Fire a d) = Inr w1" and r: "steps w1 evs' = Inr w'"
    by (cases "step w (Fire a d)") auto
  from timer_inv_lifecycle [OF assms(1)] assms(2) s
  have r1: "retired a w1" and i1: "initial_timer_action (state w1) = None"
    using fired_initial_retired by blast+
  from r1 r have "retired a w'" by (rule retired_steps)
  then have nc: "ActionCancel a \<notin> set (calls w')" by (simp add: retired_def)
  have "initial_timer_action (state w') = None"
    by (rule state_at_points [where Q = "\<lambda>st. initial_timer_action st = None",
          OF _ _ i1 steps_result_point [OF r]]) simp_all
  with nc show ?thesis by simp
qed

theorem fired_initial_never_cancelled_witness:
  "lifecycle TYPE_PERIODIC 200 50 (Some 7) [] =
     Inr (run (AsyncTimer TYPE_PERIODIC 200 50 host0) (Some 7)) \<and>
   initial_timer_action (state (run (AsyncTimer TYPE_PERIODIC 200 50 host0) (Some 7))) = Some 2 \<and>
   (\<exists>w'. lifecycle TYPE_PERIODIC 200 50 (Some 7) ([] @ Fire 2 True # [Delete]) = Inr w' \<and>
      calls w' = [ContCreate 1, ContDataSet 1, ContSchedule 1 50 2, ContScheduleEvery 1 200 3,
                  Dispatch 7 True, ActionCancel 3, ContDestroy 1, StateDelete] \<and>
      ActionCancel 2 \<notin> set (calls w'))"
proof -
  let ?W = "run (AsyncTimer TYPE_PERIODIC 200 50 host0) (Some 7)"
  have a: "lifecycle TYPE_PERIODIC 200 50 (Some 7) [] = Inr ?W" by (simp add: lifecycle_def)
  have b: "initial_timer_action (state ?W) = Some 2"
    by (simp add: eval_defs)
  obtain w' where c: "lifecycle TYPE_PERIODIC 200 50 (Some 7) ([] @ Fire 2 True # [Delete]) = Inr w'"
    and d: "calls w' = [ContCreate 1, ContDataSet 1, ContSchedule 1 50 2, ContScheduleEvery 1 200 3,
                  Dispatch 7 True, ActionCancel 3, ContDestroy 1, StateDelete]"
    by (simp add: eval_defs)
  from fired_initial_never_cancelled [OF a b c] a b c d show ?thesis by simp
qed

subsection \<open>The destructor\<close>

lemma cancels_length:
  "initial_timer_action st = None \<or> periodic_timer_action st = None \<Longrightarrow> length (cancels st) \<le> 1"
  by (auto simp: cancels_def split: option.splits)

text \<open>
  C7. In any state, the destructor calls \<open>TSActionCancel\<close> on the initial
  handle if that field is set, then on the periodic handle if that field is
  set, and on nothing else; then it destroys the continuation, and last it
  deletes the state. The host drops the cancelled actions from its pending
  ones. At every point of a timer's life at most one handle is cancelled,
  and after the destructor has run on a state a life ends in, the host has
  nothing pending.
\<close>

theorem destructor_cancels_live_handles:
  "calls (AsyncTimer_destructor w) =
     calls w @
     (case initial_timer_action (state w) of None \<Rightarrow> [] | Some a \<Rightarrow> [ActionCancel a]) @
     (case periodic_timer_action (state w) of None \<Rightarrow> [] | Some b \<Rightarrow> [ActionCancel b]) @
     [ContDestroy (cont (state w)), StateDelete] \<and>
   state_deleted (AsyncTimer_destructor w) \<and>
   pending (AsyncTimer_destructor w) =
     filter (\<lambda>s. Some (action s) \<noteq> initial_timer_action (state w) \<and>
                 Some (action s) \<noteq> periodic_timer_action (state w)) (pending w) \<and>
   (w \<in> set (lifecycle_points ty p ip dc evs) \<longrightarrow>
      length ((case initial_timer_action (state w) of None \<Rightarrow> [] | Some a \<Rightarrow> [ActionCancel a]) @
              (case periodic_timer_action (state w) of None \<Rightarrow> [] | Some b \<Rightarrow> [ActionCancel b])) \<le> 1) \<and>
   (lifecycle ty p ip dc evs = Inr w \<longrightarrow> pending (AsyncTimer_destructor w) = [])"
proof -
  have "length (cancels (state w)) \<le> 1" if "w \<in> set (lifecycle_points ty p ip dc evs)"
  proof -
    have "initial_timer_action (state w) = None \<or> periodic_timer_action (state w) = None"
      by (rule state_at_lifecycle_points
            [where Q = "\<lambda>st. initial_timer_action st = None \<or> periodic_timer_action st = None",
             OF _ _ _ _ _ that])
         (simp_all add: AsyncTimerState_new_def)
    then show ?thesis by (rule cancels_length)
  qed
  moreover have "pending (AsyncTimer_destructor w) = []" if "lifecycle ty p ip dc evs = Inr w"
    using timer_inv_destructor [OF timer_inv_lifecycle [OF that]]
    by (simp add: timer_inv_def destructor_fields)
  ultimately show ?thesis
    by (auto simp add: destructor_fields cancels_def)
qed

theorem destructor_cancels_live_handles_witness:
  "run (AsyncTimer TYPE_PERIODIC 200 50 host0) (Some 7)
     \<in> set (lifecycle_points TYPE_PERIODIC 200 50 (Some 7) []) \<and>
   lifecycle TYPE_PERIODIC 200 50 (Some 7) [] = Inr (run (AsyncTimer TYPE_PERIODIC 200 50 host0) (Some 7)) \<and>
   calls (AsyncTimer_destructor (run (AsyncTimer TYPE_PERIODIC 200 50 host0) (Some 7))) =
     [ContCreate 1, ContDataSet 1, ContSchedule 1 50 2, ActionCancel 2, ContDestroy 1, StateDelete] \<and>
   pending (AsyncTimer_destructor (run (AsyncTimer TYPE_PERIODIC 200 50 host0) (Some 7))) = []"
  using destructor_cancels_live_handles [of "run (AsyncTimer TYPE_PERIODIC 200 50 host0) (Some 7)"
      TYPE_PERIODIC 200 50 "Some 7" "[]"]
  by (simp add: eval_defs)

subsection \<open>What a fire leaves behind\<close>

lemma lifecycle_static:
  assumes "lifecycle ty p ip dc evs = Inr w"
  shows "type (state w) = ty \<and> period_in_ms (state w) = p \<and> initial_period_in_ms (state w) = ip \<and>
         cont (state w) = 1 \<and> dispatch_controller (state w) = dc"
proof -
  let ?W = "run (AsyncTimer ty p ip host0) dc"
  let ?Q = "\<lambda>st. type st = ty \<and> period_in_ms st = p \<and> initial_period_in_ms st = ip \<and>
         cont st = 1 \<and> dispatch_controller st = dc"
  from assms have mem: "w \<in> set (points ?W evs)"
    by (simp add: lifecycle_def steps_result_point)
  have q: "?Q (state ?W)"
    by (simp add: run_fields AsyncTimer_fields AsyncTimerState_new_def host0_def)
  show ?thesis
    by (rule state_at_points [where Q = ?Q, OF _ _ q mem]) simp_all
qed

lemma deleted_no_step: "timer_inv w \<Longrightarrow> state_deleted w \<Longrightarrow> isl (step w e)"
  by (cases e) (simp_all add: timer_inv_def deliver_nothing_pending)

text \<open>
  C5. In any state a life with a stored controller ends in, let the host
  fire a pending action. The callback calls \<open>dispatch()\<close> on the stored
  controller, after its transition. If \<open>dispatch()\<close> returns false, the
  destructor runs inside the invocation: the state is deleted, \<open>delete\<close>
  is in the log exactly once, nothing is pending in the host, and no event is
  possible any more, so no callback runs again. If it returns true, the
  result is the state after the transition with the call of \<open>dispatch()\<close>
  logged and nothing else changed: it is not deleted; a periodic timer has its
  periodic action pending at \<open>period_in_ms_\<close> for the next fire; a one-off
  timer has nothing pending and its owner can delete it.
\<close>

theorem dispatch_result_decides_survival:
  assumes "lifecycle ty p ip (Some c) evs = Inr w" and "deliver w a = Inr w1"
  shows "step w (Fire a False) =
           Inr (AsyncTimer_destructor
                  ((timer_transition w1)\<lparr>calls := calls (timer_transition w1) @ [Dispatch c False]\<rparr>)) \<and>
         (\<forall>w'. step w (Fire a False) = Inr w' \<longrightarrow>
            state_deleted w' \<and> length (filter (\<lambda>x. x = StateDelete) (calls w')) = 1 \<and>
            pending w' = [] \<and> (\<forall>e. isl (step w' e))) \<and>
         step w (Fire a True) =
           Inr ((timer_transition w1)\<lparr>calls := calls (timer_transition w1) @ [Dispatch c True]\<rparr>) \<and>
         (\<forall>w'. step w (Fire a True) = Inr w' \<longrightarrow>
            \<not> state_deleted w' \<and> StateDelete \<notin> set (calls w') \<and>
            (ty = TYPE_PERIODIC \<longrightarrow>
               (\<exists>b. periodic_timer_action (state w') = Some b \<and>
                    pending w' = [\<lparr>action = b, target = cont (state w'), delay_ms = p, every = True\<rparr>])) \<and>
            (ty = TYPE_ONE_OFF \<longrightarrow>
               pending w' = [] \<and> step w' Delete = Inr (AsyncTimer_destructor w')))"
proof -
  let ?t = "timer_transition w1"
  let ?m = "\<lambda>d. ?t\<lparr>calls := calls ?t @ [Dispatch c d]\<rparr>"
  note inv = timer_inv_lifecycle [OF assms(1)]
  note static = lifecycle_static [OF assms(1)]
  from static deliver_fields(1) [OF assms(2)] have ctrl: "dispatch_controller (state w1) = Some c"
    by simp
  have stepF: "step w (Fire a False) = Inr (AsyncTimer_destructor (?m False))"
    and stepT: "step w (Fire a True) = Inr (?m True)"
    using assms(2) ctrl by (simp_all add: handleTimerEvent_Some)
  have mid: "timer_inv (?m d)" "\<not> state_deleted ?t" "initial_timer_action (state ?t) = None"
    "type (state w) = TYPE_PERIODIC \<longrightarrow> periodic_timer_action (state ?t) \<noteq> None" for d
    using timer_inv_dispatched [OF inv assms(2), of c d] by simp_all
  have stat_t: "type (state ?t) = ty" "period_in_ms (state ?t) = p"
    using static deliver_fields(1) [OF assms(2)]
    by (cases "initial_timer_action (state w1)"; cases "type (state w1)";
        simp add: timer_transition_cases clear_initial_fields arm_periodic_fields)+
  have F: "state_deleted (AsyncTimer_destructor (?m False)) \<and>
      length (filter (\<lambda>x. x = StateDelete) (calls (AsyncTimer_destructor (?m False)))) = 1 \<and>
      pending (AsyncTimer_destructor (?m False)) = [] \<and>
      (\<forall>e. isl (step (AsyncTimer_destructor (?m False)) e))"
  proof -
    have di: "timer_inv (AsyncTimer_destructor (?m False))"
      using mid(1) by (rule timer_inv_destructor)
    have nodel: "StateDelete \<notin> set (calls ?t)"
      using mid(1) [of False] mid(2) by (simp add: timer_inv_def)
    have fc: "filter (\<lambda>x. x = StateDelete) (cancels st) = []" for st
      by (simp add: cancels_def split: option.splits)
    from nodel have "filter (\<lambda>x. x = StateDelete) (calls ?t) = []"
      by (auto simp: filter_empty_conv)
    then have "length (filter (\<lambda>x. x = StateDelete) (calls (AsyncTimer_destructor (?m False)))) = 1"
      by (simp add: destructor_fields fc)
    moreover from di have "pending (AsyncTimer_destructor (?m False)) = []"
      by (simp add: timer_inv_def destructor_fields)
    moreover from di have "isl (step (AsyncTimer_destructor (?m False)) e)" for e
      by (rule deleted_no_step) (simp add: destructor_fields)
    ultimately show ?thesis by (simp add: destructor_fields)
  qed
  have T: "\<not> state_deleted (?m True) \<and> StateDelete \<notin> set (calls (?m True)) \<and>
      (ty = TYPE_PERIODIC \<longrightarrow>
         (\<exists>b. periodic_timer_action (state (?m True)) = Some b \<and>
              pending (?m True) = [\<lparr>action = b, target = cont (state (?m True)), delay_ms = p, every = True\<rparr>])) \<and>
      (ty = TYPE_ONE_OFF \<longrightarrow>
         pending (?m True) = [] \<and> step (?m True) Delete = Inr (AsyncTimer_destructor (?m True)))"
  proof -
    have nd: "\<not> state_deleted (?m True)" using mid(2) by simp
    with mid(1) [of True] have nodel: "StateDelete \<notin> set (calls (?m True))"
      and pend: "pending (?m True) = armed (state ?t)"
      and oneoff: "type (state ?t) = TYPE_ONE_OFF \<longrightarrow> periodic_timer_action (state ?t) = None"
      by (simp_all add: timer_inv_def)
    have per: "\<exists>b. periodic_timer_action (state (?m True)) = Some b \<and>
              pending (?m True) = [\<lparr>action = b, target = cont (state (?m True)), delay_ms = p, every = True\<rparr>]"
      if "ty = TYPE_PERIODIC"
    proof -
      from that static mid(4) obtain b where "periodic_timer_action (state ?t) = Some b" by auto
      with pend mid(3) stat_t show ?thesis by (simp add: armed_def)
    qed
    have one: "pending (?m True) = []" if "ty = TYPE_ONE_OFF"
      using that pend mid(3) oneoff stat_t by (simp add: armed_def)
    from nd nodel per one show ?thesis by simp
  qed
  from stepF stepT F T show ?thesis by simp
qed


theorem dispatch_result_decides_survival_witness:
  "lifecycle TYPE_PERIODIC 200 50 (Some 7) [] =
     Inr (run (AsyncTimer TYPE_PERIODIC 200 50 host0) (Some 7)) \<and>
   deliver (run (AsyncTimer TYPE_PERIODIC 200 50 host0) (Some 7)) 2 =
     Inr ((run (AsyncTimer TYPE_PERIODIC 200 50 host0) (Some 7))\<lparr>pending := []\<rparr>) \<and>
   (\<exists>w'. step (run (AsyncTimer TYPE_PERIODIC 200 50 host0) (Some 7)) (Fire 2 False) = Inr w' \<and>
      state_deleted w' \<and> pending w' = [] \<and>
      calls w' = [ContCreate 1, ContDataSet 1, ContSchedule 1 50 2, ContScheduleEvery 1 200 3,
                  Dispatch 7 False, ActionCancel 3, ContDestroy 1, StateDelete] \<and>
      isl (step w' (Fire 3 True))) \<and>
   (\<exists>w'. step (run (AsyncTimer TYPE_PERIODIC 200 50 host0) (Some 7)) (Fire 2 True) = Inr w' \<and>
      \<not> state_deleted w' \<and>
      pending w' = [\<lparr>action = 3, target = 1, delay_ms = 200, every = True\<rparr>] \<and>
      calls w' = [ContCreate 1, ContDataSet 1, ContSchedule 1 50 2, ContScheduleEvery 1 200 3,
                  Dispatch 7 True])"
proof -
  let ?W = "run (AsyncTimer TYPE_PERIODIC 200 50 host0) (Some 7)"
  have a: "lifecycle TYPE_PERIODIC 200 50 (Some 7) [] = Inr ?W" by (simp add: lifecycle_def)
  have b: "deliver ?W 2 = Inr (?W\<lparr>pending := []\<rparr>)"
    by (simp add: deliver_def run_fields AsyncTimer_fields AsyncTimerState_new_def
          one_off_timeout_in_ms_def host0_def)
  have c: "calls (AsyncTimer_destructor
                  ((timer_transition (?W\<lparr>pending := []\<rparr>))
                     \<lparr>calls := calls (timer_transition (?W\<lparr>pending := []\<rparr>)) @ [Dispatch 7 False]\<rparr>)) =
           [ContCreate 1, ContDataSet 1, ContSchedule 1 50 2, ContScheduleEvery 1 200 3,
            Dispatch 7 False, ActionCancel 3, ContDestroy 1, StateDelete]"
    by (simp add: eval_defs)
  have d: "calls ((timer_transition (?W\<lparr>pending := []\<rparr>))
                     \<lparr>calls := calls (timer_transition (?W\<lparr>pending := []\<rparr>)) @ [Dispatch 7 True]\<rparr>) =
           [ContCreate 1, ContDataSet 1, ContSchedule 1 50 2, ContScheduleEvery 1 200 3,
            Dispatch 7 True]"
    by (simp add: eval_defs)
  have e: "state ((timer_transition (?W\<lparr>pending := []\<rparr>))
                     \<lparr>calls := calls (timer_transition (?W\<lparr>pending := []\<rparr>)) @ [Dispatch 7 True]\<rparr>) =
           \<lparr>cont = 1, type = TYPE_PERIODIC, period_in_ms = 200, initial_period_in_ms = 50,
            initial_timer_action = None, periodic_timer_action = Some 3,
            dispatch_controller = Some 7\<rparr>"
    by (simp add: eval_defs)
  note t = dispatch_result_decides_survival [OF a b]
  let ?wF = "AsyncTimer_destructor
                  ((timer_transition (?W\<lparr>pending := []\<rparr>))
                     \<lparr>calls := calls (timer_transition (?W\<lparr>pending := []\<rparr>)) @ [Dispatch 7 False]\<rparr>)"
  let ?wT = "(timer_transition (?W\<lparr>pending := []\<rparr>))
                     \<lparr>calls := calls (timer_transition (?W\<lparr>pending := []\<rparr>)) @ [Dispatch 7 True]\<rparr>"
  have sF: "step ?W (Fire 2 False) = Inr ?wF" by (rule t [THEN conjunct1])
  have sT: "step ?W (Fire 2 True) = Inr ?wT"
    by (rule t [THEN conjunct2, THEN conjunct2, THEN conjunct1])
  from t [THEN conjunct2, THEN conjunct1, rule_format, OF sF]
  have pF: "state_deleted ?wF" "pending ?wF = []" "isl (step ?wF (Fire 3 True))"
    by blast+
  from t [THEN conjunct2, THEN conjunct2, THEN conjunct2, rule_format, OF sT]
  have pT: "\<not> state_deleted ?wT"
    "\<exists>b. periodic_timer_action (state ?wT) = Some b \<and>
         pending ?wT = [\<lparr>action = b, target = cont (state ?wT), delay_ms = 200, every = True\<rparr>]"
    by blast+
  from pT(2) e have pT2: "pending ?wT = [\<lparr>action = 3, target = 1, delay_ms = 200, every = True\<rparr>]"
    by simp
  have F: "\<exists>w'. step ?W (Fire 2 False) = Inr w' \<and>
      state_deleted w' \<and> pending w' = [] \<and>
      calls w' = [ContCreate 1, ContDataSet 1, ContSchedule 1 50 2, ContScheduleEvery 1 200 3,
                  Dispatch 7 False, ActionCancel 3, ContDestroy 1, StateDelete] \<and>
      isl (step w' (Fire 3 True))"
    using sF pF c by blast
  have T: "\<exists>w'. step ?W (Fire 2 True) = Inr w' \<and>
      \<not> state_deleted w' \<and>
      pending w' = [\<lparr>action = 3, target = 1, delay_ms = 200, every = True\<rparr>] \<and>
      calls w' = [ContCreate 1, ContDataSet 1, ContSchedule 1 50 2, ContScheduleEvery 1 200 3,
                  Dispatch 7 True]"
    using sT pT(1) pT2 d by blast
  from a b F T show ?thesis by (intro conjI)
qed

lemma handleTimerEvent_state_deleted:
  "handleTimerEvent w d = Inr w1 \<Longrightarrow> \<not> state_deleted (timer_transition w) \<Longrightarrow>
   state_deleted w1 = (\<not> d)"
  by (erule handleTimerEvent_Inr) (cases d; simp add: destructor_fields)

text \<open>
  C6. After every fire of a periodic timer, the first one and each later
  one, the initial handle field is \<open>NULL\<close> and the periodic handle field
  is set; \<open>TSContScheduleEvery\<close> has been called exactly once in the whole
  life, so handles do not accumulate. If \<open>dispatch()\<close> returned true in
  that fire, the host has exactly that one periodic action pending, at
  \<open>period_in_ms_\<close>; if it returned false, the timer was destroyed in that
  fire and nothing is pending.
\<close>

theorem periodic_fire_one_handle:
  assumes "lifecycle TYPE_PERIODIC p ip dc (evs @ [Fire a d]) = Inr w"
  shows "initial_timer_action (state w) = None \<and>
         (\<exists>b. periodic_timer_action (state w) = Some b \<and>
              pending w = (if d then [\<lparr>action = b, target = cont (state w), delay_ms = p, every = True\<rparr>]
                           else [])) \<and>
         length (filter is_schedule_every (calls w)) = 1 \<and>
         state_deleted w = (\<not> d)"
proof -
  from assms obtain w0 where l0: "lifecycle TYPE_PERIODIC p ip dc evs = Inr w0"
    and s: "step w0 (Fire a d) = Inr w"
    by (cases "steps (run (AsyncTimer TYPE_PERIODIC p ip host0) dc) evs")
       (auto simp: lifecycle_def steps_append split: sum.splits)
  from s obtain w1 where del: "deliver w0 a = Inr w1" and han: "handleTimerEvent w1 d = Inr w"
    by (auto split: sum.splits)
  note inv0 = timer_inv_lifecycle [OF l0]
  note static0 = lifecycle_static [OF l0]
  note static = lifecycle_static [OF assms]
  note inv = timer_inv_lifecycle [OF assms]
  let ?t = "timer_transition w1"
  from han obtain c where
    w: "w = (if d then ?t\<lparr>calls := calls ?t @ [Dispatch c d]\<rparr>
             else AsyncTimer_destructor (?t\<lparr>calls := calls ?t @ [Dispatch c d]\<rparr>))"
    by (rule handleTimerEvent_Inr)
  from timer_inv_dispatched [OF inv0 del, of c d] static0
  have nd: "\<not> state_deleted ?t" and ini: "initial_timer_action (state ?t) = None"
    and per: "periodic_timer_action (state ?t) \<noteq> None"
    by simp_all
  from w have st: "state w = state ?t" by (cases d) (simp_all add: destructor_fields)
  from han nd have dl: "state_deleted w = (\<not> d)" by (rule handleTimerEvent_state_deleted)
  from per st obtain b where b: "periodic_timer_action (state w) = Some b" by auto
  from inv dl b ini st static have "pending w =
      (if d then [\<lparr>action = b, target = cont (state w), delay_ms = p, every = True\<rparr>] else [])"
    by (simp add: timer_inv_def armed_def)
  moreover from inv b have "length (filter is_schedule_every (calls w)) = 1"
    by (simp add: timer_inv_def)
  ultimately show ?thesis using ini st b dl by simp
qed

theorem periodic_fire_one_handle_witness:
  "\<exists>w. lifecycle TYPE_PERIODIC 200 50 (Some 7) ([Fire 2 True, Fire 3 True] @ [Fire 3 True]) = Inr w \<and>
       initial_timer_action (state w) = None \<and> periodic_timer_action (state w) = Some 3 \<and>
       pending w = [\<lparr>action = 3, target = 1, delay_ms = 200, every = True\<rparr>] \<and>
       calls w = [ContCreate 1, ContDataSet 1, ContSchedule 1 50 2, ContScheduleEvery 1 200 3,
                  Dispatch 7 True, Dispatch 7 True, Dispatch 7 True]"
proof -
  obtain w where a: "lifecycle TYPE_PERIODIC 200 50 (Some 7) ([Fire 2 True, Fire 3 True] @ [Fire 3 True]) = Inr w"
    and b: "periodic_timer_action (state w) = Some 3" "cont (state w) = 1"
      "calls w = [ContCreate 1, ContDataSet 1, ContSchedule 1 50 2, ContScheduleEvery 1 200 3,
                  Dispatch 7 True, Dispatch 7 True, Dispatch 7 True]"
    by (simp add: eval_defs)
  from periodic_fire_one_handle [OF a] a b show ?thesis by simp
qed

section \<open>Properties of the fetch\<close>

text \<open>
  C8. After a fetch has completed with \<open>RESULT_FAILURE\<close> or
  \<open>RESULT_TIMEOUT\<close>, \<open>getResponseBody\<close> yields the \<open>NULL\<close> pointer and
  size 0; after it has completed with \<open>RESULT_SUCCESS\<close>, it yields the
  delivered body view: its address, and as size the length of the payload.
\<close>

theorem getResponseBody_after_completion:
  "(rc = RESULT_FAILURE \<or> rc = RESULT_TIMEOUT \<longrightarrow>
      getResponseBody (fetch_complete st rc addr payload) = (None, 0)) \<and>
   (rc = RESULT_SUCCESS \<longrightarrow>
      getResponseBody (fetch_complete st rc addr payload) = (Some addr, length payload)) \<and>
   fetch_result (fetch_complete st rc addr payload) = Some rc"
  by (cases rc) (simp_all add: getResponseBody_def fetch_complete_def)

theorem getResponseBody_after_completion_witness:
  "getResponseBody
     (fetch_complete \<lparr>fetch_result = None, body = None, body_size = 0\<rparr> RESULT_SUCCESS 4096 ''hello'') =
     (Some 4096, 5) \<and>
   getResponseBody
     (fetch_complete \<lparr>fetch_result = None, body = Some 4096, body_size = 5\<rparr> RESULT_TIMEOUT 4096 ''hello'') =
     (None, 0) \<and>
   getResponseBody
     (fetch_complete \<lparr>fetch_result = None, body = None, body_size = 0\<rparr> RESULT_FAILURE 0 []) =
     (None, 0)"
  using
    getResponseBody_after_completion
      [of RESULT_SUCCESS "\<lparr>fetch_result = None, body = None, body_size = 0\<rparr>" 4096 "''hello''"]
    getResponseBody_after_completion
      [of RESULT_TIMEOUT "\<lparr>fetch_result = None, body = Some 4096, body_size = 5\<rparr>" 4096 "''hello''"]
    getResponseBody_after_completion
      [of RESULT_FAILURE "\<lparr>fetch_result = None, body = None, body_size = 0\<rparr>" 0 "[]"]
  by simp

end
